theory Spec2Isabelle
  imports Main
begin

section \<open>Code streams (codestream.py)\<close>

text \<open>
  A \<open>CodeStream\<close> is a byte buffer with a cursor (Python's \<open>io.BytesIO\<close>).  Byte strings
  are modelled as \<open>string\<close> (lists of 8-bit characters), the cursor as a natural number.
  A read past the end of the buffer is short and leaves the cursor where it is; a relative
  seek before the start of the buffer stops at offset 0.
\<close>

record stream =
  buf :: string
  pos :: nat

definition read :: "nat \<Rightarrow> stream \<Rightarrow> string \<times> stream" where
  "read n s = (let d = take n (drop (pos s) (buf s)) in (d, s\<lparr>pos := pos s + length d\<rparr>))"

text \<open>\<open>seek(-k, 1)\<close>: every relative seek of the source moves backwards.\<close>

definition seek_back :: "nat \<Rightarrow> stream \<Rightarrow> stream" where
  "seek_back k s = s\<lparr>pos := pos s - k\<rparr>"

text \<open>\<open>seek(p)\<close> and \<open>seek(0, 2)\<close>.\<close>

definition seek :: "nat \<Rightarrow> stream \<Rightarrow> stream" where
  "seek p s = s\<lparr>pos := p\<rparr>"

definition seek_end :: "stream \<Rightarrow> stream" where
  "seek_end s = s\<lparr>pos := length (buf s)\<rparr>"

definition tell :: "stream \<Rightarrow> nat" where
  "tell s = pos s"

definition quote :: char where
  "quote = CHR 0x22"

definition NUL :: char where
  "NUL = CHR 0x00"

definition blanks :: string where
  "blanks = [CHR '' '', CHR 0x09, CHR 0x0A]"

text \<open>
  Python's \<open>d in r\<close> for a byte string \<open>r\<close> and an operand \<open>d\<close> that was read with
  \<open>read(1)\<close>, so of length at most one: the empty string is a substring of every string.
\<close>

definition str_in :: "string \<Rightarrow> string \<Rightarrow> bool" where
  "str_in d r = (case d of [] \<Rightarrow> True | c # _ \<Rightarrow> c \<in> set r)"

definition peek :: "nat \<Rightarrow> stream \<Rightarrow> string \<times> stream" where
  "peek n s = (case read n s of (d, s1) \<Rightarrow> (d, seek_back (length d) s1))"

function skip_read :: "string \<Rightarrow> nat \<Rightarrow> stream \<Rightarrow> string \<times> stream" where
  "skip_read skip_range n s =
     (case read 1 s of (d, s1) \<Rightarrow>
        if d = [] \<or> \<not> str_in d skip_range
        then (case read (n - 1) s1 of (r, s2) \<Rightarrow> (d @ r, s2))
        else skip_read skip_range n s1)"
  by pat_completeness auto
termination
  by (relation "measure (\<lambda>(r, n, s). length (buf s) - pos s)")
     (auto simp: read_def Let_def)

declare skip_read.simps [simp del]

definition skip :: "string \<Rightarrow> nat \<Rightarrow> stream \<Rightarrow> string \<times> stream" where
  "skip skip_range n s =
     (case skip_read skip_range n s of (d, s1) \<Rightarrow> (d, seek_back (length d) s1))"

definition skip_blank_read :: "nat \<Rightarrow> stream \<Rightarrow> string \<times> stream" where
  "skip_blank_read n s = skip_read blanks n s"

definition skip_blank :: "nat \<Rightarrow> stream \<Rightarrow> string \<times> stream" where
  "skip_blank n s =
     (case skip_read blanks n s of (d, s1) \<Rightarrow> (d, seek_back (length d) s1))"

text \<open>\<open>read_if\<close>: the range is a tuple of strings; \<open>None\<close> is Python's \<open>None\<close>.\<close>

definition read_if :: "string \<Rightarrow> string list \<Rightarrow> stream \<Rightarrow> string option \<times> stream" where
  "read_if d in_range s =
     (if d \<noteq> [] \<and> d \<in> set in_range
      then (case read (length d) s of (_, s1) \<Rightarrow> (Some d, s1))
      else (None, s))"

definition skip_blank_read_if :: "string list \<Rightarrow> nat \<Rightarrow> stream \<Rightarrow> string option \<times> stream" where
  "skip_blank_read_if in_range n s =
     (case skip_blank n s of (d, s1) \<Rightarrow> read_if d in_range s1)"

function read_to_loop :: "string list \<Rightarrow> string \<Rightarrow> stream \<Rightarrow> string \<times> stream" where
  "read_to_loop findrange out s =
     (case read 1 s of (d, s1) \<Rightarrow>
        if d = [] then (out, seek_back (length d) s1)
        else if d \<in> set findrange then (out, seek_back (length d) s1)
        else read_to_loop findrange (out @ d) s1)"
  by pat_completeness auto
termination
  by (relation "measure (\<lambda>(r, out, s). length (buf s) - pos s)")
     (auto simp: read_def Let_def)

declare read_to_loop.simps [simp del]

definition read_to :: "string list \<Rightarrow> stream \<Rightarrow> string \<times> stream" where
  "read_to findrange s = read_to_loop findrange [] s"

text \<open>
  \<open>read_string\<close>; the class attribute \<open>end_line\<close> of the stream type is a parameter.
\<close>

definition read_string :: "string list \<Rightarrow> stream \<Rightarrow> string \<times> stream" where
  "read_string end_line s =
     (case read 1 s of (word, s1) \<Rightarrow>
        if word = [] \<or> word \<noteq> [quote] then ([], seek_back (length word) s1)
        else (case read_to ([quote] # end_line) s1 of (w, s2) \<Rightarrow>
          (case read 1 s2 of (delim, s3) \<Rightarrow>
             if delim = [quote] then (word @ w @ delim, s3)
             else (word @ w, seek_back (length delim) s3))))"

subsection \<open>Numeric literals\<close>

definition digits :: string where
  "digits = ''0123456789''"

definition hexdigits :: string where
  "hexdigits = ''0123456789abcdefABCDEF''"

definition octdigits :: string where
  "octdigits = ''01234567''"

definition ascii_lowercase :: string where
  "ascii_lowercase = ''abcdefghijklmnopqrstuvwxyz''"

definition ascii_uppercase :: string where
  "ascii_uppercase = ''ABCDEFGHIJKLMNOPQRSTUVWXYZ''"

text \<open>\<open>str.upper()\<close> on a byte string: the ASCII letters only.\<close>

definition upper_char :: "char \<Rightarrow> char" where
  "upper_char c = (case map_of (zip ascii_lowercase ascii_uppercase) c of
                     Some u \<Rightarrow> u | None \<Rightarrow> c)"

definition upper :: "string \<Rightarrow> string" where
  "upper w = map upper_char w"

text \<open>The ASCII separators \<open>\x1c\x1d\x1f\<close> that \<open>_read_dec\<close> keeps in a numeral.\<close>

definition separators :: string where
  "separators = [CHR 0x1C, CHR 0x1D, CHR 0x1F]"

definition rstrip :: "string \<Rightarrow> string \<Rightarrow> string" where
  "rstrip chars w = rev (dropWhile (\<lambda>c. c \<in> set chars) (rev w))"

definition strip :: "string \<Rightarrow> string \<Rightarrow> string" where
  "strip chars w = dropWhile (\<lambda>c. c \<in> set chars) (rstrip chars w)"

text \<open>
  The \<open>while True\<close> loop of \<open>_read_dec\<close>, with its variables \<open>have_exp\<close>,
  \<open>have_point\<close> and \<open>word\<close>; a \<open>break\<close> returns the word and the stream.
\<close>

function read_dec_loop :: "bool \<Rightarrow> bool \<Rightarrow> string \<Rightarrow> stream \<Rightarrow> string \<times> stream" where
  "read_dec_loop have_exp have_point word s =
     (case read 1 s of (c0, s1) \<Rightarrow>
        let c = upper c0 in
        if c = [] then (word, s1)
        else if c = ''.'' \<and> \<not> have_point \<and> \<not> have_exp
          then read_dec_loop have_exp True (word @ c) s1
        else if str_in c ''ED'' \<and> \<not> have_exp
          then (case peek 1 s1 of (p, s2) \<Rightarrow>
                  if c = ''E'' \<and> upper p \<in> set [''L'', ''Q'']
                  then (word, seek_back 1 s2)
                  else read_dec_loop True have_point (word @ c) s2)
        else if str_in c ''-+'' \<and> (word = [] \<or> str_in [last word] ''ED'')
          then read_dec_loop have_exp have_point (word @ c) s1
        else if str_in c (digits @ blanks @ separators)
          then read_dec_loop have_exp have_point (word @ c) s1
        else if str_in c ''!#'' \<and> \<not> have_exp
          then (word @ c, s1)
        else if c = ''%''
          then (word, s1)
        else (word, seek_back 1 s1))"
  by pat_completeness auto
termination
  by (relation "measure (\<lambda>(he, hp, w, s). length (buf s) - pos s)")
     (auto simp: read_def peek_def seek_back_def upper_def Let_def)

declare read_dec_loop.simps [simp del]

text \<open>The lines of \<open>_read_dec\<close> after the loop.\<close>

definition trim_word :: "string \<times> stream \<Rightarrow> string \<times> stream" where
  "trim_word r =
     (case r of (word, s) \<Rightarrow>
        let trimword = rstrip blanks word;
            s1 = seek_back (length word - length trimword) s
        in (strip blanks trimword, s1))"

definition read_dec :: "stream \<Rightarrow> string \<times> stream" where
  "read_dec s = trim_word (read_dec_loop False False [] s)"

function read_hex_loop :: "string \<Rightarrow> stream \<Rightarrow> string \<times> stream" where
  "read_hex_loop word s =
     (case peek 1 s of (c, s1) \<Rightarrow>
        if c \<noteq> [] \<and> str_in c hexdigits
        then (case read 1 s1 of (d, s2) \<Rightarrow> read_hex_loop (word @ d) s2)
        else (word, s1))"
  by pat_completeness auto
termination
  by (relation "measure (\<lambda>(w, s). length (buf s) - pos s)")
     (auto simp: read_def peek_def seek_back_def Let_def)

declare read_hex_loop.simps [simp del]

definition read_hex :: "stream \<Rightarrow> string \<times> stream" where
  "read_hex s = (case read 1 s of (_, s1) \<Rightarrow> read_hex_loop [] s1)"

function read_oct_loop :: "string \<Rightarrow> stream \<Rightarrow> string \<times> stream" where
  "read_oct_loop word s =
     (case peek 1 s of (c, s1) \<Rightarrow>
        if c \<noteq> [] \<and> str_in c (octdigits @ blanks)
        then (case read 1 s1 of (d, s2) \<Rightarrow> read_oct_loop (word @ d) s2)
        else (word, s1))"
  by pat_completeness auto
termination
  by (relation "measure (\<lambda>(w, s). length (buf s) - pos s)")
     (auto simp: read_def peek_def seek_back_def Let_def)

declare read_oct_loop.simps [simp del]

definition read_oct :: "stream \<Rightarrow> string \<times> stream" where
  "read_oct s =
     (case peek 1 s of (p, s1) \<Rightarrow>
        let s2 = (if upper p = ''O'' then snd (read 1 s1) else s1)
        in read_oct_loop [] s2)"

text \<open>
  \<open>read_number\<close>; the result \<open>None\<close> is Python's \<open>None\<close>, returned when no branch of
  the function applies.
\<close>

definition read_number :: "stream \<Rightarrow> string option \<times> stream" where
  "read_number s =
     (case peek 1 s of (c, s1) \<Rightarrow>
        if c = [] then (Some [], s1)
        else if c = ''&'' then
          (case read 1 s1 of (_, s2) \<Rightarrow>
             (case peek 1 s2 of (p, s3) \<Rightarrow>
                if upper p = ''H''
                then (case read_hex s3 of (w, s4) \<Rightarrow> (Some (''&H'' @ w), s4))
                else (case read_oct s3 of (w, s4) \<Rightarrow> (Some (''&O'' @ w), s4))))
        else if str_in c (digits @ ''.+-'') then
          (case read_dec s1 of (w, s2) \<Rightarrow> (Some w, s2))
        else (None, s1))"

section \<open>Properties\<close>

subsection \<open>Reading from the rest of the buffer\<close>

text \<open>
  The loops of the stream functions read one byte at a time.  For the proofs each loop is
  restated as a recursion over the bytes from the cursor on, and shown to agree with the
  stream function.
\<close>

lemma read_one_nil: "drop (pos s) (buf s) = [] \<Longrightarrow> read (Suc 0) s = ([], s)"
  by (simp add: read_def Let_def)

lemma read_one_cons:
  "drop (pos s) (buf s) = x # xs \<Longrightarrow> read (Suc 0) s = ([x], s\<lparr>pos := Suc (pos s)\<rparr>)"
  by (simp add: read_def Let_def)

lemma drop_Suc_tl: "drop n xs = y # ys \<Longrightarrow> drop (Suc n) xs = ys"
  by (metis drop_Suc tl_drop list.sel(3))

lemma peek_one:
  "peek (Suc 0) s = (take (Suc 0) (drop (pos s) (buf s)), s)"
  by (simp add: peek_def read_def seek_back_def Let_def)

fun bump :: "string \<times> nat \<Rightarrow> string \<times> nat" where
  "bump (w, j) = (w, Suc j)"

datatype dec_step = Accept bool bool | Bang | Percent | Stop

definition dec_step :: "bool \<Rightarrow> bool \<Rightarrow> string \<Rightarrow> char \<Rightarrow> string \<Rightarrow> dec_step" where
  "dec_step he hp w c xs =
     (if c = CHR ''.'' \<and> \<not> hp \<and> \<not> he then Accept he True
      else if c \<in> set ''ED'' \<and> \<not> he then
        (if c = CHR ''E'' \<and> upper (take 1 xs) \<in> set [''L'', ''Q''] then Stop
         else Accept True hp)
      else if c \<in> set ''-+'' \<and> (w = [] \<or> last w \<in> set ''ED'') then Accept he hp
      else if c \<in> set (digits @ blanks @ separators) then Accept he hp
      else if c \<in> set ''!#'' \<and> \<not> he then Bang
      else if c = CHR ''%'' then Percent
      else Stop)"

fun dec_scan :: "bool \<Rightarrow> bool \<Rightarrow> string \<Rightarrow> string \<Rightarrow> string \<times> nat" where
  "dec_scan he hp w [] = (w, 0)"
| "dec_scan he hp w (x # xs) =
     (case dec_step he hp w (upper_char x) xs of
        Accept he' hp' \<Rightarrow> bump (dec_scan he' hp' (w @ [upper_char x]) xs)
      | Bang \<Rightarrow> (w @ [upper_char x], 1)
      | Percent \<Rightarrow> (w, 1)
      | Stop \<Rightarrow> (w, 0))"

lemmas dec_scan_step = dec_scan.simps(2)

lemma bump_case:
  "(case bump r of (w', j) \<Rightarrow> (w', s\<lparr>pos := pos s + j\<rparr>))
   = (case r of (w', j) \<Rightarrow> (w', s\<lparr>pos := Suc (pos s + j)\<rparr>))"
  by (cases r) simp

lemma read_dec_loop_scan:
  "read_dec_loop he hp w s =
     (case dec_scan he hp w (drop (pos s) (buf s)) of (w', j) \<Rightarrow> (w', s\<lparr>pos := pos s + j\<rparr>))"
proof (induction he hp w s rule: read_dec_loop.induct)
  case (1 he hp w s)
  show ?case
  proof (cases "drop (pos s) (buf s)")
    case Nil
    then show ?thesis
      by (subst read_dec_loop.simps) (simp add: read_one_nil upper_def del: drop_eq_Nil)
  next
    case (Cons x xs)
    define s1 where "s1 = s\<lparr>pos := Suc (pos s)\<rparr>"
    define c where "c = upper_char x"
    have d: "drop (pos s1) (buf s1) = xs" using Cons by (simp add: s1_def drop_Suc_tl)
    have r: "read 1 s = ([x], s1)" using read_one_cons[OF Cons] by (simp add: s1_def)
    have pk: "peek 1 s1 = (take 1 xs, s1)" using peek_one[of s1] d by simp
    have u: "upper [x] = [c]" by (simp add: upper_def c_def)
    note IH = 1[OF r[symmetric] u[symmetric]]
    have sb: "seek_back 1 s1 = s" by (simp add: seek_back_def s1_def)
    have s1p: "\<And>j. s1\<lparr>pos := pos s1 + j\<rparr> = s\<lparr>pos := Suc (pos s + j)\<rparr>"
      by (simp add: s1_def)
    have step: "read_dec_loop he hp w s =
        (if [c] = ''.'' \<and> \<not> hp \<and> \<not> he
          then read_dec_loop he True (w @ [c]) s1
        else if str_in [c] ''ED'' \<and> \<not> he
          then (if [c] = ''E'' \<and> upper (take 1 xs) \<in> set [''L'', ''Q'']
                  then (w, s)
                  else read_dec_loop True hp (w @ [c]) s1)
        else if str_in [c] ''-+'' \<and> (w = [] \<or> str_in [last w] ''ED'')
          then read_dec_loop he hp (w @ [c]) s1
        else if str_in [c] (digits @ blanks @ separators)
          then read_dec_loop he hp (w @ [c]) s1
        else if str_in [c] ''!#'' \<and> \<not> he
          then (w @ [c], s1)
        else if [c] = ''%''
          then (w, s1)
        else (w, s))"
      by (subst read_dec_loop.simps) (simp only: r u pk sb Let_def prod.case list.simps if_False)
    have dsc: "dec_scan he hp w (drop (pos s) (buf s)) =
      (case dec_step he hp w c xs of
        Accept he' hp' \<Rightarrow> bump (dec_scan he' hp' (w @ [c]) xs)
      | Bang \<Rightarrow> (w @ [c], 1)
      | Percent \<Rightarrow> (w, 1)
      | Stop \<Rightarrow> (w, 0))"
      unfolding Cons c_def by (simp only: dec_scan.simps)
    have si: "\<And>r. str_in [c] r = (c \<in> set r)" by (simp add: str_in_def)
    have sl: "str_in [last w] ''ED'' = (last w \<in> set ''ED'')" by (simp add: str_in_def)
    have sc: "\<And>d. ([c] = [d]) = (c = d)" by simp
    note IH' = IH[unfolded si sl d sc]
    note step' = step[unfolded si sl sc]
    consider (pt) "c = CHR ''.'' \<and> \<not> hp \<and> \<not> he"
      | (el) "\<not> (c = CHR ''.'' \<and> \<not> hp \<and> \<not> he)" "c \<in> set ''ED'' \<and> \<not> he"
             "c = CHR ''E'' \<and> upper (take 1 xs) \<in> set [''L'', ''Q'']"
      | (ex) "\<not> (c = CHR ''.'' \<and> \<not> hp \<and> \<not> he)" "c \<in> set ''ED'' \<and> \<not> he"
             "\<not> (c = CHR ''E'' \<and> upper (take 1 xs) \<in> set [''L'', ''Q''])"
      | (sg) "\<not> (c = CHR ''.'' \<and> \<not> hp \<and> \<not> he)" "\<not> (c \<in> set ''ED'' \<and> \<not> he)"
             "c \<in> set ''-+'' \<and> (w = [] \<or> last w \<in> set ''ED'')"
      | (dg) "\<not> (c = CHR ''.'' \<and> \<not> hp \<and> \<not> he)" "\<not> (c \<in> set ''ED'' \<and> \<not> he)"
             "\<not> (c \<in> set ''-+'' \<and> (w = [] \<or> last w \<in> set ''ED''))"
             "c \<in> set (digits @ blanks @ separators)"
      | (ot) "\<not> (c = CHR ''.'' \<and> \<not> hp \<and> \<not> he)" "\<not> (c \<in> set ''ED'' \<and> \<not> he)"
             "\<not> (c \<in> set ''-+'' \<and> (w = [] \<or> last w \<in> set ''ED''))"
             "c \<notin> set (digits @ blanks @ separators)"
      by blast
    then show ?thesis
    proof cases
      case pt
      have "read_dec_loop he True (w @ [c]) s1 =
        (case dec_scan he True (w @ [c]) xs of (w', j) \<Rightarrow> (w', s1\<lparr>pos := pos s1 + j\<rparr>))"
        using IH'(1) pt by simp
      then show ?thesis unfolding step' dsc dec_step_def if_P[OF pt] by (simp only: bump_case s1p dec_step.case)
    next
      case el
      show ?thesis unfolding step' dsc dec_step_def if_not_P[OF el(1)] if_P[OF el(2)] if_P[OF el(3)] by simp
    next
      case ex
      have "read_dec_loop True hp (w @ [c]) s1 =
        (case dec_scan True hp (w @ [c]) xs of (w', j) \<Rightarrow> (w', s1\<lparr>pos := pos s1 + j\<rparr>))"
        using IH'(2)[OF _ _ _ pk[symmetric]] ex d by simp
      then show ?thesis unfolding step' dsc dec_step_def if_not_P[OF ex(1)] if_P[OF ex(2)] if_not_P[OF ex(3)]
        by (simp only: bump_case s1p dec_step.case)
    next
      case sg
      have "read_dec_loop he hp (w @ [c]) s1 =
        (case dec_scan he hp (w @ [c]) xs of (w', j) \<Rightarrow> (w', s1\<lparr>pos := pos s1 + j\<rparr>))"
        using IH'(3) sg by simp
      then show ?thesis unfolding step' dsc dec_step_def if_not_P[OF sg(1)] if_not_P[OF sg(2)] if_P[OF sg(3)]
        by (simp only: bump_case s1p dec_step.case)
    next
      case dg
      have "read_dec_loop he hp (w @ [c]) s1 =
        (case dec_scan he hp (w @ [c]) xs of (w', j) \<Rightarrow> (w', s1\<lparr>pos := pos s1 + j\<rparr>))"
        using IH'(4) dg by simp
      then show ?thesis
        unfolding step' dsc dec_step_def if_not_P[OF dg(1)] if_not_P[OF dg(2)] if_not_P[OF dg(3)] if_P[OF dg(4)]
        by (simp only: bump_case s1p dec_step.case)
    next
      case ot
      have e1: "s1 = s\<lparr>pos := pos s + 1\<rparr>" by (simp add: s1_def)
      have nd: "\<not> c \<in> set (digits @ blanks @ separators)" using ot(4) by simp
      show ?thesis
        unfolding step' dsc dec_step_def if_not_P[OF ot(1)] if_not_P[OF ot(2)] if_not_P[OF ot(3)] if_not_P[OF nd]
        by (simp add: e1)
    qed
  qed
qed


definition no_blanks :: "string \<Rightarrow> string" where
  "no_blanks w = filter (\<lambda>c. c \<notin> set blanks) w"

lemma upper_char_cases: "upper_char x = x \<or> (x \<in> set ascii_lowercase \<and> upper_char x \<in> set ascii_uppercase)"
proof (cases "map_of (zip ascii_lowercase ascii_uppercase) x")
  case None
  then show ?thesis by (simp add: upper_char_def)
next
  case (Some u)
  then have "(x, u) \<in> set (zip ascii_lowercase ascii_uppercase)" by (rule map_of_SomeD)
  then have "x \<in> set ascii_lowercase \<and> u \<in> set ascii_uppercase" by (auto elim: in_set_zipE)
  with Some show ?thesis by (simp add: upper_char_def)
qed


lemma blanks_not_letters:
  "x \<in> set blanks \<Longrightarrow> x \<notin> set ascii_lowercase \<and> x \<notin> set ascii_uppercase"
  by (simp add: blanks_def ascii_uppercase_def ascii_lowercase_def) blast

lemma separators_not_letters:
  "x \<in> set separators \<Longrightarrow> x \<notin> set ascii_lowercase \<and> x \<notin> set ascii_uppercase"
  by (simp add: separators_def ascii_uppercase_def ascii_lowercase_def) blast

lemma percent_not_letter:
  "CHR ''%'' \<notin> set ascii_lowercase \<and> CHR ''%'' \<notin> set ascii_uppercase"
  by (simp add: ascii_uppercase_def ascii_lowercase_def)

lemma upper_char_blank: "(upper_char x \<in> set blanks) = (x \<in> set blanks)"
  using upper_char_cases[of x] blanks_not_letters[of x] blanks_not_letters[of "upper_char x"]
  by metis

lemma upper_char_sep: "(upper_char x \<in> set separators) = (x \<in> set separators)"
  using upper_char_cases[of x] separators_not_letters[of x] separators_not_letters[of "upper_char x"]
  by metis

lemma upper_char_sep_id: "x \<in> set separators \<Longrightarrow> upper_char x = x"
  using upper_char_cases[of x] separators_not_letters[of x] by metis

lemma upper_char_percent: "(upper_char x = CHR ''%'') = (x = CHR ''%'')"
  using upper_char_cases[of x] percent_not_letter by metis

lemma upper_char_blank_id: "x \<in> set blanks \<Longrightarrow> upper_char x = x"
  using upper_char_cases[of x] blanks_not_letters[of x] by metis




declare dec_scan.simps(2) [simp del]

lemma dec_step_Percent: "dec_step he hp w c xs = Percent \<Longrightarrow> c = CHR ''%''"
  by (simp add: dec_step_def split: if_splits del: set_simps set_append)

lemma dec_step_Bang: "dec_step he hp w c xs = Bang \<Longrightarrow> c \<in> set ''!#'' \<and> \<not> he"
  by (simp add: dec_step_def split: if_splits del: set_simps set_append)

lemma dec_scan_word:
  "dec_scan he hp w xs = (w', j) \<Longrightarrow>
   \<exists>m \<le> length xs. w' = w @ upper (take m xs) \<and>
      (j = m \<or> (j = Suc m \<and> m < length xs \<and> xs ! m = CHR ''%''))"
proof (induction xs arbitrary: he hp w w' j)
  case Nil
  then show ?case by (simp add: upper_def)
next
  case (Cons x xs)
  show ?case
  proof (cases "dec_step he hp w (upper_char x) xs")
    case (Accept he' hp')
    with Cons.prems obtain j' where r: "dec_scan he' hp' (w @ [upper_char x]) xs = (w', j')" and j: "j = Suc j'"
      by (cases "dec_scan he' hp' (w @ [upper_char x]) xs") (simp add: dec_scan_step)
    from Cons.IH[OF r] obtain m where m: "m \<le> length xs" "w' = (w @ [upper_char x]) @ upper (take m xs)"
      "j' = m \<or> (j' = Suc m \<and> m < length xs \<and> xs ! m = CHR ''%'')" by blast
    show ?thesis
      by (rule exI[of _ "Suc m"]) (use m j in \<open>auto simp: upper_def\<close>)
  next
    case Bang
    then have "dec_scan he hp w (x # xs) = (w @ [upper_char x], 1)" by (simp add: dec_scan_step)
    with Cons.prems have "w' = w @ [upper_char x]" "j = 1" by simp_all
    then show ?thesis by (intro exI[of _ "Suc 0"]) (simp add: upper_def)
  next
    case Percent
    then have "dec_scan he hp w (x # xs) = (w, 1)" by (simp add: dec_scan_step)
    with Cons.prems have "w' = w" "j = 1" by simp_all
    moreover have "x = CHR ''%''" using dec_step_Percent[OF Percent] by (simp add: upper_char_percent)
    ultimately show ?thesis by (intro exI[of _ 0]) (simp add: upper_def)
  next
    case Stop
    then have "dec_scan he hp w (x # xs) = (w, 0)" by (simp add: dec_scan_step)
    with Cons.prems have "w' = w" "j = 0" by simp_all
    then show ?thesis by (intro exI[of _ 0]) (simp add: upper_def)
  qed
qed

lemma peek_state: "snd (peek n s) = s"
  by (simp add: peek_def read_def seek_back_def Let_def)

lemma peek_value: "fst (peek n s) = take n (drop (pos s) (buf s))"
  by (simp add: peek_def read_def Let_def)

text \<open>
  C10.  At every stream position where the next character is not a double quote (the end
  of the buffer included), \<open>read_string\<close> returns the empty string and leaves the stream
  position unchanged.
\<close>

theorem read_string_no_quote:
  "fst (peek 1 s) \<noteq> [quote] \<Longrightarrow> read_string end_line s = ([], s)"
  by (simp add: read_string_def peek_value read_def seek_back_def Let_def)

theorem read_string_no_quote_witness:
  "fst (peek 1 \<lparr>buf = ''AB'', pos = 1\<rparr>) \<noteq> [quote]
   \<and> read_string [[NUL], []] \<lparr>buf = ''AB'', pos = 1\<rparr> = ([], \<lparr>buf = ''AB'', pos = 1\<rparr>)
   \<and> fst (peek 1 \<lparr>buf = ''AB'', pos = 2\<rparr>) \<noteq> [quote]
   \<and> read_string [[NUL], []] \<lparr>buf = ''AB'', pos = 2\<rparr> = ([], \<lparr>buf = ''AB'', pos = 2\<rparr>)"
proof -
  have a: "fst (peek 1 \<lparr>buf = ''AB'', pos = 1\<rparr>) \<noteq> [quote]"
    by (simp add: peek_value quote_def)
  have b: "fst (peek 1 \<lparr>buf = ''AB'', pos = 2\<rparr>) \<noteq> [quote]"
    by (simp add: peek_value)
  show ?thesis
    using a b read_string_no_quote [OF a, of "[[NUL], []]"]
      read_string_no_quote [OF b, of "[[NUL], []]"]
    by simp
qed

end
